theory Spec2Isabelle
  imports Main
begin

section \<open>ecr-watch: the polling loop of \<^verbatim>\<open>main.go\<close>\<close>

text \<open>
  The program is one function, \<^verbatim>\<open>main\<close>. After resolving its configuration and
  building the registry client (lines 26 to 57) it logs \<^verbatim>\<open>running\<close> and enters the
  watch loop of lines 61 to 116. The development below embeds that loop: the page filter
  (lines 73 to 78), the pagination loop (lines 67 to 85), the newest-selection scan
  (lines 97 to 104), the body of one poll cycle (lines 62 to 115) and the loop itself.

  The registry, the regular-expression engine and the SDK helpers are libraries outside
  the repository. The registry client is a pair of state-passing functions over an
  arbitrary world \<open>'w\<close>; the compiled pattern is the predicate
  \<^verbatim>\<open>tagRegexp.MatchString\<close>; the helpers are written from their documented behaviour.
\<close>

subsection \<open>Library types and helpers\<close>

text \<open>
  A \<^verbatim>\<open>time.Time\<close> is modelled by its instant: the signed number of nanoseconds
  since Go's zero time (January 1 of year 1, UTC). \<^verbatim>\<open>time.Time{}\<close> is the instant 0,
  \<^verbatim>\<open>IsZero\<close> tests for it, and \<^verbatim>\<open>t.After(u)\<close> compares instants strictly.
\<close>

type_synonym Time = int

type_synonym Duration = int

definition zeroTime :: Time where
  "zeroTime = 0"

definition IsZero :: "Time \<Rightarrow> bool" where
  "IsZero t = (t = 0)"

definition After :: "Time \<Rightarrow> Time \<Rightarrow> bool" where
  "After t u = (u < t)"

text \<open>
  \<^verbatim>\<open>aws.StringValue\<close>, \<^verbatim>\<open>aws.TimeValue\<close> and \<^verbatim>\<open>aws.StringValueSlice\<close> dereference
  a pointer and give the type's zero value for \<^verbatim>\<open>nil\<close>.
\<close>

definition StringValue :: "string option \<Rightarrow> string" where
  "StringValue p = (case p of None \<Rightarrow> [] | Some v \<Rightarrow> v)"

definition TimeValue :: "Time option \<Rightarrow> Time" where
  "TimeValue p = (case p of None \<Rightarrow> zeroTime | Some t \<Rightarrow> t)"

definition StringValueSlice :: "string option list \<Rightarrow> string list" where
  "StringValueSlice ps = map StringValue ps"

text \<open>\<^verbatim>\<open>strings.Join(elems, sep)\<close>.\<close>

fun Join :: "string list \<Rightarrow> string \<Rightarrow> string" where
  "Join [] sep = []"
| "Join [e] sep = e"
| "Join (e # e' # es) sep = e @ sep @ Join (e' # es) sep"

subsection \<open>Registry data\<close>

text \<open>
  The SDK structures, with the fields the program reads or writes. Pointer fields are
  options; the elements of the slices the service returns are taken to be non-nil.
\<close>

record ImageIdentifier =
  ImageDigest :: "string option"
  ImageTag :: "string option"

record ImageDetail =
  ImagePushedAt :: "Time option"
  ImageTags :: "string option list"

record ListImagesInput =
  RepositoryName :: "string option"
  NextToken :: "string option"

record ListImagesOutput =
  ImageIds :: "ImageIdentifier list"
  NextToken :: "string option"

record DescribeImagesInput =
  RepositoryName :: "string option"
  ImageIds :: "ImageIdentifier list"

record DescribeImagesOutput =
  ImageDetails :: "ImageDetail list"

datatype error = Error string

text \<open>
  The client: each operation takes the request and the world, and returns an error or
  the output, and the world after the call.
\<close>

record 'w ecrClient =
  ListImages :: "ListImagesInput \<Rightarrow> 'w \<Rightarrow> (error + ListImagesOutput) \<times> 'w"
  DescribeImages :: "DescribeImagesInput \<Rightarrow> 'w \<Rightarrow> (error + DescribeImagesOutput) \<times> 'w"

record config =
  AWSProfile :: string
  AWSRegion :: string
  Repository :: string
  TagPattern :: string
  Interval :: Duration

subsection \<open>What the process does\<close>

text \<open>
  The effects of a run, in order: calls to the registry with their answers, lines on the
  log stream (standard error), writes to standard output, and sleeps.
\<close>

datatype logline =
    Running
  | MatchedTag string
  | Exiting
  | MostRecentPushedAt Time
  | SleepingFor Duration
  | Fatal error

datatype event =
    ListImagesCall ListImagesInput "error + ListImagesOutput"
  | DescribeImagesCall DescribeImagesInput "error + DescribeImagesOutput"
  | Log logline
  | Print string
  | Sleep Duration

fun stdout :: "event list \<Rightarrow> string" where
  "stdout [] = []"
| "stdout (Print s # es) = s @ stdout es"
| "stdout (e # es) = stdout es"

subsection \<open>The newest-selection scan (lines 97 to 104)\<close>

text \<open>
  The pair is \<^verbatim>\<open>(currentMostRecentImagePushedAt, currentMostRecentImageTags)\<close>; the
  caller starts it at \<open>(zeroTime, [])\<close>.
\<close>

fun newestImage :: "ImageDetail list \<Rightarrow> Time \<times> string list \<Rightarrow> Time \<times> string list" where
  "newestImage [] current = current"
| "newestImage (imageDetail # rest) (currentPushedAt, currentTags) =
     (let imagePushedAt = TimeValue (ImagePushedAt imageDetail)
      in if After imagePushedAt currentPushedAt
         then newestImage rest (imagePushedAt, StringValueSlice (ImageTags imageDetail))
         else newestImage rest (currentPushedAt, currentTags))"

subsection \<open>The page filter (lines 73 to 78)\<close>

text \<open>
  The pair is the slice \<^verbatim>\<open>imageIDs\<close> and the events so far; a matching identifier
  is logged and appended.
\<close>

fun matchPage ::
  "(string \<Rightarrow> bool) \<Rightarrow> ImageIdentifier list \<Rightarrow> ImageIdentifier list \<times> event list
    \<Rightarrow> ImageIdentifier list \<times> event list" where
  "matchPage tagRegexp [] acc = acc"
| "matchPage tagRegexp (imageID # rest) (imageIDs, tr) =
     (let tag = StringValue (ImageTag imageID)
      in if tagRegexp tag
         then matchPage tagRegexp rest (imageIDs @ [imageID], tr @ [Log (MatchedTag tag)])
         else matchPage tagRegexp rest (imageIDs, tr))"

subsection \<open>The pagination loop (lines 67 to 85)\<close>

text \<open>
  The loop has no bound: it runs as long as the service returns a continuation token.
  A run that never leaves the loop is \<open>None\<close>. An error of the service is returned to
  the caller, which makes it fatal.
\<close>

partial_function (option) listImagesLoop ::
  "'w ecrClient \<Rightarrow> (string \<Rightarrow> bool) \<Rightarrow> ListImagesInput \<Rightarrow> ImageIdentifier list
    \<Rightarrow> 'w \<times> event list \<Rightarrow> ((error + ImageIdentifier list) \<times> 'w \<times> event list) option" where
  "listImagesLoop ecrClient tagRegexp listImagesInput imageIDs s =
     (case s of (w, tr) \<Rightarrow>
       (case ListImages ecrClient listImagesInput w of
          (Inl err, w') \<Rightarrow>
             Some (Inl err, w', tr @ [ListImagesCall listImagesInput (Inl err)])
        | (Inr listImagesOutput, w') \<Rightarrow>
            (case matchPage tagRegexp (ListImagesOutput.ImageIds listImagesOutput)
                    (imageIDs, tr @ [ListImagesCall listImagesInput (Inr listImagesOutput)]) of
               (imageIDs', tr') \<Rightarrow>
                 (case ListImagesOutput.NextToken listImagesOutput of
                    Some nextToken \<Rightarrow>
                      listImagesLoop ecrClient tagRegexp
                        (listImagesInput\<lparr>ListImagesInput.NextToken := Some nextToken\<rparr>)
                        imageIDs' (w', tr')
                  | None \<Rightarrow> Some (Inr imageIDs', w', tr')))))"

subsection \<open>One poll cycle (lines 62 to 115)\<close>

text \<open>
  The request the listing starts from (lines 63 to 65) and the describe request
  (lines 87 to 90).
\<close>

definition firstListImagesInput :: "config \<Rightarrow> ListImagesInput" where
  "firstListImagesInput cfg =
     \<lparr>ListImagesInput.RepositoryName = Some (Repository cfg),
      ListImagesInput.NextToken = None\<rparr>"

definition describeInput :: "config \<Rightarrow> ImageIdentifier list \<Rightarrow> DescribeImagesInput" where
  "describeInput cfg imageIDs =
     \<lparr>DescribeImagesInput.RepositoryName = Some (Repository cfg),
      DescribeImagesInput.ImageIds = imageIDs\<rparr>"

text \<open>
  The body of the outer loop. It either leaves the process, with its exit status
  (\<^verbatim>\<open>logger.Fatal\<close> logs and exits with status 1, the \<^verbatim>\<open>return\<close> of line 109 with
  status 0), or goes round with the new value of \<^verbatim>\<open>mostRecentImagePushedAt\<close>.
\<close>

datatype cycleResult = Exit nat | Continue Time

definition pollCycle ::
  "'w ecrClient \<Rightarrow> config \<Rightarrow> (string \<Rightarrow> bool) \<Rightarrow> Time \<Rightarrow> 'w \<times> event list
    \<Rightarrow> (cycleResult \<times> 'w \<times> event list) option" where
  "pollCycle ecrClient cfg tagRegexp mostRecentImagePushedAt s =
     (case listImagesLoop ecrClient tagRegexp (firstListImagesInput cfg) [] s of
        None \<Rightarrow> None
      | Some (Inl err, w1, tr1) \<Rightarrow> Some (Exit 1, w1, tr1 @ [Log (Fatal err)])
      | Some (Inr imageIDs, w1, tr1) \<Rightarrow>
          (let describeImagesInput = describeInput cfg imageIDs
           in case DescribeImages ecrClient describeImagesInput w1 of
                (Inl err, w2) \<Rightarrow>
                   Some (Exit 1, w2,
                     tr1 @ [DescribeImagesCall describeImagesInput (Inl err), Log (Fatal err)])
              | (Inr describeImagesOutput, w2) \<Rightarrow>
                  (case newestImage (ImageDetails describeImagesOutput) (zeroTime, []) of
                     (currentPushedAt, currentTags) \<Rightarrow>
                       (let tr2 = tr1 @ [DescribeImagesCall describeImagesInput
                                           (Inr describeImagesOutput)]
                        in if \<not> IsZero mostRecentImagePushedAt
                              \<and> After currentPushedAt mostRecentImagePushedAt
                           then Some (Exit 0, w2,
                                  tr2 @ [Log Exiting, Print (Join currentTags '','')])
                           else Some (Continue currentPushedAt, w2,
                                  tr2 @ [Log (MostRecentPushedAt currentPushedAt),
                                         Log (SleepingFor (Interval cfg)),
                                         Sleep (Interval cfg)])))))"

subsection \<open>The watch loop (lines 61 to 116) and its entry (lines 58 to 60)\<close>

text \<open>A run that polls for ever is \<open>None\<close>; a run that ends gives the exit status.\<close>

partial_function (option) watch ::
  "'w ecrClient \<Rightarrow> config \<Rightarrow> (string \<Rightarrow> bool) \<Rightarrow> Time \<Rightarrow> 'w \<times> event list
    \<Rightarrow> (nat \<times> 'w \<times> event list) option" where
  "watch ecrClient cfg tagRegexp mostRecentImagePushedAt s =
     (case pollCycle ecrClient cfg tagRegexp mostRecentImagePushedAt s of
        None \<Rightarrow> None
      | Some (Exit status, s') \<Rightarrow> Some (status, s')
      | Some (Continue pushedAt, s') \<Rightarrow> watch ecrClient cfg tagRegexp pushedAt s')"

declare listImagesLoop.simps [code] watch.simps [code]

definition main ::
  "'w ecrClient \<Rightarrow> config \<Rightarrow> (string \<Rightarrow> bool) \<Rightarrow> 'w
    \<Rightarrow> (nat \<times> 'w \<times> event list) option" where
  "main ecrClient cfg tagRegexp w = watch ecrClient cfg tagRegexp zeroTime (w, [Log Running])"

subsection \<open>Poll cycles of an execution\<close>

text \<open>
  \<open>cycleStart ecrClient cfg tagRegexp w n\<close> is the state in which an execution that
  starts in world \<open>w\<close> enters its poll cycle number \<open>n + 1\<close>: the stored
  \<^verbatim>\<open>mostRecentImagePushedAt\<close>, the world and the events so far. It is \<open>None\<close> when the
  process has left, or hangs in a listing, before that cycle.
\<close>

fun cycleStart ::
  "'w ecrClient \<Rightarrow> config \<Rightarrow> (string \<Rightarrow> bool) \<Rightarrow> 'w \<Rightarrow> nat
    \<Rightarrow> (Time \<times> 'w \<times> event list) option" where
  "cycleStart ecrClient cfg tagRegexp w 0 = Some (zeroTime, w, [Log Running])"
| "cycleStart ecrClient cfg tagRegexp w (Suc n) =
     (case cycleStart ecrClient cfg tagRegexp w n of
        None \<Rightarrow> None
      | Some (mostRecentImagePushedAt, s) \<Rightarrow>
          (case pollCycle ecrClient cfg tagRegexp mostRecentImagePushedAt s of
             Some (Continue pushedAt, s') \<Rightarrow> Some (pushedAt, s')
           | _ \<Rightarrow> None))"

subsection \<open>Pages served by the registry\<close>

text \<open>
  \<open>servesPages ecrClient inp w pages w'\<close>: asked with \<open>inp\<close> in world \<open>w\<close>, and then
  with the token of each page it has returned, the service answers with the pages of
  \<open>pages\<close>, one per call, and is left in \<open>w'\<close>.
\<close>

fun servesPages ::
  "'w ecrClient \<Rightarrow> ListImagesInput \<Rightarrow> 'w \<Rightarrow> ListImagesOutput list \<Rightarrow> 'w \<Rightarrow> bool" where
  "servesPages ecrClient inp w [] w' = (w' = w)"
| "servesPages ecrClient inp w (page # pages) w' =
     (case ListImages ecrClient inp w of
        (Inl err, w1) \<Rightarrow> False
      | (Inr out, w1) \<Rightarrow>
          out = page \<and>
          servesPages ecrClient
            (inp\<lparr>ListImagesInput.NextToken := ListImagesOutput.NextToken page\<rparr>) w1 pages w')"

text \<open>The identifiers of a page that the pattern matches, and the events of listing pages.\<close>

definition matching :: "(string \<Rightarrow> bool) \<Rightarrow> ImageIdentifier list \<Rightarrow> ImageIdentifier list" where
  "matching tagRegexp ids = filter (\<lambda>imageID. tagRegexp (StringValue (ImageTag imageID))) ids"

fun pagesTrace :: "(string \<Rightarrow> bool) \<Rightarrow> ListImagesInput \<Rightarrow> ListImagesOutput list \<Rightarrow> event list" where
  "pagesTrace tagRegexp inp [] = []"
| "pagesTrace tagRegexp inp (page # pages) =
     ListImagesCall inp (Inr page)
       # map (\<lambda>imageID. Log (MatchedTag (StringValue (ImageTag imageID))))
           (matching tagRegexp (ListImagesOutput.ImageIds page))
       @ pagesTrace tagRegexp
           (inp\<lparr>ListImagesInput.NextToken := ListImagesOutput.NextToken page\<rparr>) pages"

fun isListImagesCall :: "event \<Rightarrow> bool" where
  "isListImagesCall (ListImagesCall inp r) = True"
| "isListImagesCall e = False"

fun isDescribeImagesCall :: "event \<Rightarrow> bool" where
  "isDescribeImagesCall (DescribeImagesCall inp r) = True"
| "isDescribeImagesCall e = False"

subsection \<open>A scripted registry\<close>

text \<open>
  A registry for concrete runs: its world is the list of answers it will still give to
  \<^verbatim>\<open>ListImages\<close> and the list of those it will give to \<^verbatim>\<open>DescribeImages\<close>; when
  a list is used up the call fails. As the SDK's client does, it refuses a describe
  request whose \<^verbatim>\<open>ImageIds\<close> is an empty slice (the slice of line 62 is never nil)
  with the error \<^verbatim>\<open>InvalidParameter\<close>, before the request reaches the service.
\<close>

type_synonym script = "(error + ListImagesOutput) list \<times> (error + DescribeImagesOutput) list"

definition scriptedClient :: "script ecrClient" where
  "scriptedClient =
     \<lparr>ListImages = (\<lambda>inp (ls, ds).
        case ls of [] \<Rightarrow> (Inl (Error ''script exhausted''), ([], ds))
                 | r # ls' \<Rightarrow> (r, (ls', ds))),
      DescribeImages = (\<lambda>inp (ls, ds).
        if DescribeImagesInput.ImageIds inp = []
        then (Inl (Error ''InvalidParameter''), (ls, ds))
        else case ds of [] \<Rightarrow> (Inl (Error ''script exhausted''), (ls, []))
                      | r # ds' \<Rightarrow> (r, (ls, ds')))\<rparr>"

definition testConfig :: config where
  "testConfig =
     \<lparr>AWSProfile = [], AWSRegion = ''us-east-1'', Repository = ''app'',
      TagPattern = ''^latest$'', Interval = 30000000000\<rparr>"

text \<open>
  \<^verbatim>\<open>MatchString\<close> of the default pattern \<^verbatim>\<open>^latest$\<close>, and of the pattern
  \<^verbatim>\<open>.*\<close>, which matches every string.
\<close>

definition matchLatest :: "string \<Rightarrow> bool" where
  "matchLatest tag = (tag = ''latest'')"

definition matchAny :: "string \<Rightarrow> bool" where
  "matchAny tag = True"

text \<open>Identifiers, pages, details and describe answers for the scripts.\<close>

definition taggedImage :: "string \<Rightarrow> ImageIdentifier" where
  "taggedImage tag = \<lparr>ImageDigest = None, ImageTag = Some tag\<rparr>"

definition listedPage :: "ImageIdentifier list \<Rightarrow> string option \<Rightarrow> ListImagesOutput" where
  "listedPage ids tok = \<lparr>ListImagesOutput.ImageIds = ids, ListImagesOutput.NextToken = tok\<rparr>"

definition pushedImage :: "Time \<Rightarrow> string list \<Rightarrow> ImageDetail" where
  "pushedImage t tags = \<lparr>ImagePushedAt = Some t, ImageTags = map Some tags\<rparr>"

definition describedAs :: "ImageDetail list \<Rightarrow> error + DescribeImagesOutput" where
  "describedAs ds = Inr \<lparr>ImageDetails = ds\<rparr>"

definition untagged :: ImageIdentifier where
  "untagged = \<lparr>ImageDigest = Some ''sha256:0'', ImageTag = None\<rparr>"

text \<open>
  Every poll lists one matching identifier. The describe answer of poll 1 has no detail,
  that of poll 2 has an image pushed at 150, that of poll 3 one pushed at 200.
\<close>

definition zeroThenNew :: script where
  "zeroThenNew =
     ([Inr (listedPage [taggedImage ''latest''] None),
       Inr (listedPage [taggedImage ''latest''] None),
       Inr (listedPage [taggedImage ''latest''] None)],
      [describedAs [], describedAs [pushedImage 150 [''latest'', ''v2'']],
       describedAs [pushedImage 200 [''latest'', ''v3'']]])"


text \<open>Poll 1 finds an image pushed at 100; poll 2 finds only one pushed at 50.\<close>

definition newerThenOlder :: script where
  "newerThenOlder =
     ([Inr (listedPage [taggedImage ''latest''] None),
       Inr (listedPage [taggedImage ''latest''] None)],
      [describedAs [pushedImage 100 [''latest'']], describedAs [pushedImage 50 [''latest'']]])"

text \<open>Poll 1 finds an image pushed at 100; poll 2 finds one pushed at 150.\<close>

definition newImagePushed :: script where
  "newImagePushed =
     ([Inr (listedPage [taggedImage ''latest''] None),
       Inr (listedPage [taggedImage ''latest''] None)],
      [describedAs [pushedImage 100 [''latest'', ''v1'']],
       describedAs [pushedImage 150 [''latest'', ''v2'']]])"

text \<open>The describe call of poll 1 fails.\<close>

definition describeFails :: script where
  "describeFails =
     ([Inr (listedPage [taggedImage ''latest''] None)], [Inl (Error ''AccessDenied'')])"

text \<open>Poll 1 finds an image pushed at 100; poll 2 finds a newer one that has no tags.\<close>

definition untaggedNewest :: script where
  "untaggedNewest =
     ([Inr (listedPage [taggedImage ''latest''] None),
       Inr (listedPage [taggedImage ''latest''] None)],
      [describedAs [pushedImage 100 [''latest'']], describedAs [pushedImage 150 []]])"

text \<open>Poll 1 finds an image pushed at 100; in poll 2 the only detail has no push time.\<close>

definition unsetAfterSet :: script where
  "unsetAfterSet =
     ([Inr (listedPage [taggedImage ''latest''] None),
       Inr (listedPage [taggedImage ''latest''] None)],
      [describedAs [pushedImage 100 [''latest'']],
       describedAs [\<lparr>ImagePushedAt = None, ImageTags = [Some ''latest'']\<rparr>]])"

section \<open>Properties of the scan, the listing and the cycle\<close>

subsection \<open>The scan and the page filter\<close>

lemma matchPage_eq:
  "matchPage tagRegexp ids (acc, tr) =
     (acc @ filter (\<lambda>i. tagRegexp (StringValue (ImageTag i))) ids,
      tr @ map (\<lambda>i. Log (MatchedTag (StringValue (ImageTag i))))
             (filter (\<lambda>i. tagRegexp (StringValue (ImageTag i))) ids))"
  by (induction ids arbitrary: acc tr) (simp_all add: Let_def)

lemma newestImage_append:
  "newestImage (xs @ ys) c = newestImage ys (newestImage xs c)"
proof (induction xs arbitrary: c)
  case Nil
  show ?case by simp
next
  case (Cons x xs)
  obtain t tags where c: "c = (t, tags)" by (cases c)
  show ?case unfolding c by (simp add: Let_def Cons.IH)
qed

lemma newestImage_unchanged:
  "\<forall>d\<in>set ds. \<not> After (TimeValue (ImagePushedAt d)) t \<Longrightarrow> newestImage ds (t, tags) = (t, tags)"
  by (induction ds) (simp_all add: Let_def)

lemma newestImage_fst_ge: "t \<le> fst (newestImage ds (t, tags))"
proof (induction ds arbitrary: t tags)
  case Nil
  show ?case by simp
next
  case (Cons d ds)
  show ?case
  proof (cases "After (TimeValue (ImagePushedAt d)) t")
    case True
    then have "t \<le> TimeValue (ImagePushedAt d)" by (simp add: After_def)
    also have "\<dots> \<le> fst (newestImage ds (TimeValue (ImagePushedAt d), StringValueSlice (ImageTags d)))"
      by (rule Cons.IH)
    finally show ?thesis using True by (simp add: Let_def)
  next
    case False
    then show ?thesis using Cons.IH [of t tags] by (simp add: Let_def)
  qed
qed

lemma newestImage_fst_bound:
  "\<forall>d\<in>set ds. TimeValue (ImagePushedAt d) < b \<Longrightarrow> t < b \<Longrightarrow> fst (newestImage ds (t, tags)) < b"
  by (induction ds arbitrary: t tags) (simp_all add: Let_def)

lemma newestImage_first_max:
  assumes i: "i < length ds"
    and pos: "After (TimeValue (ImagePushedAt (ds ! i))) zeroTime"
    and mx: "\<forall>j<length ds. \<not> After (TimeValue (ImagePushedAt (ds ! j))) (TimeValue (ImagePushedAt (ds ! i)))"
    and first: "\<forall>j<i. After (TimeValue (ImagePushedAt (ds ! i))) (TimeValue (ImagePushedAt (ds ! j)))"
  shows "newestImage ds (zeroTime, []) =
           (TimeValue (ImagePushedAt (ds ! i)), StringValueSlice (ImageTags (ds ! i)))"
proof -
  let ?T = "\<lambda>d. TimeValue (ImagePushedAt d)"
  have split: "ds = take i ds @ ds ! i # drop (Suc i) ds"
    using i by (simp add: id_take_nth_drop)
  obtain t1 tg1 where pre: "newestImage (take i ds) (zeroTime, []) = (t1, tg1)"
    by (cases "newestImage (take i ds) (zeroTime, [])")
  have "\<forall>d\<in>set (take i ds). ?T d < ?T (ds ! i)"
  proof
    fix d assume "d \<in> set (take i ds)"
    then obtain j where "j < length (take i ds)" "d = take i ds ! j"
      by (auto simp: in_set_conv_nth)
    then have "j < i" "d = ds ! j" by simp_all
    with first show "?T d < ?T (ds ! i)" by (simp add: After_def)
  qed
  moreover have "zeroTime < ?T (ds ! i)" using pos by (simp add: After_def)
  ultimately have "fst (newestImage (take i ds) (zeroTime, [])) < ?T (ds ! i)"
    by (rule newestImage_fst_bound)
  then have t1: "After (?T (ds ! i)) t1" using pre by (simp add: After_def)
  have "\<forall>d\<in>set (drop (Suc i) ds). \<not> After (?T d) (?T (ds ! i))"
  proof
    fix d assume "d \<in> set (drop (Suc i) ds)"
    then obtain j where "j < length (drop (Suc i) ds)" "d = drop (Suc i) ds ! j"
      by (auto simp: in_set_conv_nth)
    then have "Suc i + j < length ds" "d = ds ! (Suc i + j)" by simp_all
    with mx show "\<not> After (?T d) (?T (ds ! i))" by blast
  qed
  then have post: "newestImage (drop (Suc i) ds) (?T (ds ! i), StringValueSlice (ImageTags (ds ! i)))
      = (?T (ds ! i), StringValueSlice (ImageTags (ds ! i)))"
    by (rule newestImage_unchanged)
  have "newestImage ds (zeroTime, []) =
      newestImage (ds ! i # drop (Suc i) ds) (newestImage (take i ds) (zeroTime, []))"
    by (subst split) (simp only: newestImage_append)
  also have "\<dots> = newestImage (drop (Suc i) ds) (?T (ds ! i), StringValueSlice (ImageTags (ds ! i)))"
    using t1 by (simp add: pre Let_def)
  finally show ?thesis using post by simp
qed

subsection \<open>The pagination loop\<close>

lemma stdout_append: "stdout (xs @ ys) = stdout xs @ stdout ys"
  by (induction xs rule: stdout.induct) simp_all

lemma stdout_map_Log: "stdout (map (\<lambda>i. Log (f i)) xs) = []"
  by (induction xs) simp_all

lemma matchPage_matching:
  "matchPage tagRegexp ids (acc, tr) =
     (acc @ matching tagRegexp ids,
      tr @ map (\<lambda>imageID. Log (MatchedTag (StringValue (ImageTag imageID)))) (matching tagRegexp ids))"
  by (simp add: matchPage_eq matching_def)

lemma listImagesLoop_error:
  "ListImages c inp w = (Inl err, w') \<Longrightarrow>
   listImagesLoop c re inp acc (w, tr) = Some (Inl err, w', tr @ [ListImagesCall inp (Inl err)])"
  by (subst listImagesLoop.simps) simp

lemma listImagesLoop_last:
  "ListImages c inp w = (Inr out, w') \<Longrightarrow> ListImagesOutput.NextToken out = None \<Longrightarrow>
   listImagesLoop c re inp acc (w, tr) =
     Some (Inr (acc @ matching re (ListImagesOutput.ImageIds out)), w',
           tr @ ListImagesCall inp (Inr out)
              # map (\<lambda>imageID. Log (MatchedTag (StringValue (ImageTag imageID))))
                  (matching re (ListImagesOutput.ImageIds out)))"
  by (subst listImagesLoop.simps) (simp add: matchPage_matching)

lemma listImagesLoop_more:
  "ListImages c inp w = (Inr out, w') \<Longrightarrow> ListImagesOutput.NextToken out = Some t \<Longrightarrow>
   listImagesLoop c re inp acc (w, tr) =
     listImagesLoop c re (inp\<lparr>ListImagesInput.NextToken := Some t\<rparr>)
       (acc @ matching re (ListImagesOutput.ImageIds out))
       (w', tr @ ListImagesCall inp (Inr out)
              # map (\<lambda>imageID. Log (MatchedTag (StringValue (ImageTag imageID))))
                  (matching re (ListImagesOutput.ImageIds out)))"
  by (subst listImagesLoop.simps) (simp add: matchPage_matching)

lemma listImagesLoop_trace:
  assumes "listImagesLoop c re inp acc s = Some y"
  shows "\<exists>mid. snd (snd y) = snd s @ mid \<and> stdout mid = [] \<and>
        (\<forall>e\<in>set mid. \<not> isDescribeImagesCall e) \<and>
        (\<forall>err. fst y = Inl err \<longrightarrow> (\<exists>mid' inp'. mid = mid' @ [ListImagesCall inp' (Inl err)]))"
  using assms
proof (induct rule: listImagesLoop.raw_induct [rotated 1, consumes 1])
  case (1 loop c re inp acc s y)
  obtain w tr where s: "s = (w, tr)" by (cases s)
  obtain r w' where call: "ListImages c inp w = (r, w')" by (cases "ListImages c inp w")
  show ?case
  proof (cases r)
    case (Inl err)
    with 1(2) s call have "y = (Inl err, w', tr @ [ListImagesCall inp (Inl err)])" by simp
    then show ?thesis using s by simp
  next
    case (Inr out)
    let ?ev = "ListImagesCall inp (Inr out)
              # map (\<lambda>imageID. Log (MatchedTag (StringValue (ImageTag imageID))))
                  (matching re (ListImagesOutput.ImageIds out))"
    have ev: "stdout ?ev = []" "\<forall>e\<in>set ?ev. \<not> isDescribeImagesCall e"
      by (auto simp: stdout_map_Log)
    show ?thesis
    proof (cases "ListImagesOutput.NextToken out")
      case None
      with 1(2) s call Inr have "y = (Inr (acc @ matching re (ListImagesOutput.ImageIds out)), w', tr @ ?ev)"
        by (simp add: matchPage_matching)
      then show ?thesis using s ev by auto
    next
      case (Some t)
      with 1(2) s call Inr have "loop c re (inp\<lparr>ListImagesInput.NextToken := Some t\<rparr>)
          (acc @ matching re (ListImagesOutput.ImageIds out)) (w', tr @ ?ev) = Some y"
        by (simp add: matchPage_matching)
      from 1(1) [OF this] obtain mid where mid: "snd (snd y) = (tr @ ?ev) @ mid" "stdout mid = []"
        "\<forall>e\<in>set mid. \<not> isDescribeImagesCall e"
        "\<forall>err. fst y = Inl err \<longrightarrow> (\<exists>mid' inp'. mid = mid' @ [ListImagesCall inp' (Inl err)])"
        by auto
      have "snd (snd y) = snd s @ (?ev @ mid)" using mid(1) s by simp
      moreover have "stdout (?ev @ mid) = []" using mid(2) ev(1) by (simp only: stdout_append) simp
      moreover have "\<forall>e\<in>set (?ev @ mid). \<not> isDescribeImagesCall e" using mid(3) ev(2) by auto
      moreover have "\<forall>err. fst y = Inl err \<longrightarrow> (\<exists>mid' inp'. ?ev @ mid = mid' @ [ListImagesCall inp' (Inl err)])"
      proof (intro allI impI)
        fix err assume "fst y = Inl err"
        with mid(4) obtain mid' inp' where "mid = mid' @ [ListImagesCall inp' (Inl err)]" by blast
        then have "?ev @ mid = (?ev @ mid') @ [ListImagesCall inp' (Inl err)]" by simp
        then show "\<exists>mid' inp'. ?ev @ mid = mid' @ [ListImagesCall inp' (Inl err)]" by blast
      qed
      ultimately show ?thesis by blast
    qed
  qed
qed

lemma servesPages_Cons:
  assumes "servesPages c inp w (page # pages) w'"
  shows "\<exists>w1. ListImages c inp w = (Inr page, w1) \<and>
           servesPages c (inp\<lparr>ListImagesInput.NextToken := ListImagesOutput.NextToken page\<rparr>) w1 pages w'"
  using assms by (auto split: prod.splits sum.splits)

lemma listImagesLoop_pages:
  assumes "pages \<noteq> []"
    and "\<forall>page\<in>set (butlast pages). ListImagesOutput.NextToken page \<noteq> None"
    and "ListImagesOutput.NextToken (last pages) = None"
    and "servesPages c inp w pages w'"
  shows "listImagesLoop c re inp acc (w, tr) =
           Some (Inr (acc @ concat (map (\<lambda>page. matching re (ListImagesOutput.ImageIds page)) pages)),
                 w', tr @ pagesTrace re inp pages)"
  using assms
proof (induction pages arbitrary: inp acc w tr)
  case Nil
  then show ?case by simp
next
  case (Cons page pages)
  from servesPages_Cons [OF Cons.prems(4)] obtain w1 where
    call: "ListImages c inp w = (Inr page, w1)" and
    rest: "servesPages c (inp\<lparr>ListImagesInput.NextToken := ListImagesOutput.NextToken page\<rparr>) w1 pages w'"
    by blast
  show ?case
  proof (cases "pages = []")
    case True
    with Cons.prems(3) have tok: "ListImagesOutput.NextToken page = None" by simp
    from rest True have "w' = w1" by simp
    then show ?thesis
      using True by (simp add: listImagesLoop_last [OF call tok])
  next
    case False
    with Cons.prems(2) have "ListImagesOutput.NextToken page \<noteq> None" by simp
    then obtain t where tok: "ListImagesOutput.NextToken page = Some t" by blast
    have b: "\<forall>page\<in>set (butlast pages). ListImagesOutput.NextToken page \<noteq> None"
      using Cons.prems(2) False by simp
    have l: "ListImagesOutput.NextToken (last pages) = None"
      using Cons.prems(3) False by simp
    show ?thesis
      using Cons.IH [OF False b l rest [unfolded tok]]
      by (simp add: listImagesLoop_more [OF call tok] tok)
  qed
qed

lemma filter_isListImagesCall_map_Log: "filter isListImagesCall (map (\<lambda>i. Log (f i)) xs) = []"
  by (induction xs) simp_all

lemma pagesTrace_calls: "length (filter isListImagesCall (pagesTrace re inp pages)) = length pages"
  by (induction pages arbitrary: inp) (simp_all add: filter_isListImagesCall_map_Log)

lemma pagesTrace_no_describe: "e \<in> set (pagesTrace re inp pages) \<Longrightarrow> \<not> isDescribeImagesCall e"
  by (induction pages arbitrary: inp) auto

subsection \<open>The poll cycle and the run\<close>

lemma pollCycle_hang:
  "listImagesLoop c re (firstListImagesInput cfg) [] s = None \<Longrightarrow> pollCycle c cfg re p s = None"
  by (simp add: pollCycle_def)

lemma pollCycle_list_error:
  "listImagesLoop c re (firstListImagesInput cfg) [] s = Some (Inl err, w1, tr1) \<Longrightarrow>
   pollCycle c cfg re p s = Some (Exit 1, w1, tr1 @ [Log (Fatal err)])"
  by (simp add: pollCycle_def)

lemma pollCycle_describe_error:
  "listImagesLoop c re (firstListImagesInput cfg) [] s = Some (Inr ids, w1, tr1) \<Longrightarrow>
   DescribeImages c (describeInput cfg ids) w1 = (Inl err, w2) \<Longrightarrow>
   pollCycle c cfg re p s =
     Some (Exit 1, w2, tr1 @ [DescribeImagesCall (describeInput cfg ids) (Inl err), Log (Fatal err)])"
  by (simp add: pollCycle_def)

lemma pollCycle_observed:
  "listImagesLoop c re (firstListImagesInput cfg) [] s = Some (Inr ids, w1, tr1) \<Longrightarrow>
   DescribeImages c (describeInput cfg ids) w1 = (Inr out, w2) \<Longrightarrow>
   pollCycle c cfg re p s =
     (if \<not> IsZero p \<and> After (fst (newestImage (ImageDetails out) (zeroTime, []))) p
      then Some (Exit 0, w2,
             tr1 @ [DescribeImagesCall (describeInput cfg ids) (Inr out), Log Exiting,
                    Print (Join (snd (newestImage (ImageDetails out) (zeroTime, []))) '','')])
      else Some (Continue (fst (newestImage (ImageDetails out) (zeroTime, []))), w2,
             tr1 @ [DescribeImagesCall (describeInput cfg ids) (Inr out),
                    Log (MostRecentPushedAt (fst (newestImage (ImageDetails out) (zeroTime, [])))),
                    Log (SleepingFor (Interval cfg)), Sleep (Interval cfg)]))"
  by (simp add: pollCycle_def Let_def split: prod.splits)

lemma pollCycle_Continue:
  assumes "pollCycle c cfg re p s = Some (Continue t, w', tr')"
  shows "\<exists>ids w1 tr1 out.
           listImagesLoop c re (firstListImagesInput cfg) [] s = Some (Inr ids, w1, tr1) \<and>
           DescribeImages c (describeInput cfg ids) w1 = (Inr out, w') \<and>
           t = fst (newestImage (ImageDetails out) (zeroTime, [])) \<and>
           \<not> (\<not> IsZero p \<and> After t p) \<and>
           tr' = tr1 @ [DescribeImagesCall (describeInput cfg ids) (Inr out),
                        Log (MostRecentPushedAt t),
                        Log (SleepingFor (Interval cfg)), Sleep (Interval cfg)]"
proof (cases "listImagesLoop c re (firstListImagesInput cfg) [] s")
  case None
  with assms show ?thesis by (simp add: pollCycle_hang)
next
  case (Some y)
  obtain r w1 tr1 where y: "y = (r, w1, tr1)" by (cases y)
  show ?thesis
  proof (cases r)
    case (Inl err)
    with assms Some y show ?thesis by (simp add: pollCycle_list_error)
  next
    case (Inr ids)
    note lst = Some [unfolded y Inr]
    obtain d w2 where d: "DescribeImages c (describeInput cfg ids) w1 = (d, w2)"
      by (cases "DescribeImages c (describeInput cfg ids) w1")
    show ?thesis
    proof (cases d)
      case (Inl err)
      with assms lst d show ?thesis by (simp add: pollCycle_describe_error)
    next
      case (Inr out)
      from assms show ?thesis
        unfolding pollCycle_observed [OF lst d [unfolded Inr]]
        using lst d Inr by (auto split: if_splits)
    qed
  qed
qed

lemma watch_exit:
  "pollCycle c cfg re p s = Some (Exit status, s') \<Longrightarrow> watch c cfg re p s = Some (status, s')"
  by (subst watch.simps) simp

lemma watch_continue:
  "pollCycle c cfg re p s = Some (Continue t, s') \<Longrightarrow> watch c cfg re p s = watch c cfg re t s'"
  by (subst watch.simps) simp

lemma cycleStart_Suc:
  assumes "cycleStart c cfg re w (Suc n) = Some (t, s')"
  shows "\<exists>p s. cycleStart c cfg re w n = Some (p, s) \<and> pollCycle c cfg re p s = Some (Continue t, s')"
  using assms by (auto split: option.splits cycleResult.splits)

lemma cycleStart_main:
  "cycleStart c cfg re w n = Some (p, s) \<Longrightarrow> main c cfg re w = watch c cfg re p s"
proof (induction n arbitrary: p s)
  case 0
  then show ?case by (simp add: main_def)
next
  case (Suc n)
  from cycleStart_Suc [OF Suc.prems] obtain p0 s0 where
    prev: "cycleStart c cfg re w n = Some (p0, s0)" and
    step: "pollCycle c cfg re p0 s0 = Some (Continue p, s)" by blast
  have "main c cfg re w = watch c cfg re p0 s0" by (rule Suc.IH [OF prev])
  also have "\<dots> = watch c cfg re p s" by (rule watch_continue [OF step])
  finally show ?case .
qed

lemma newestImage_zero_le: "zeroTime \<le> fst (newestImage ds (zeroTime, []))"
  by (rule newestImage_fst_ge)

lemma cycleStart_inv:
  "cycleStart c cfg re w n = Some (p, w', tr) \<Longrightarrow> stdout tr = [] \<and> zeroTime \<le> p"
proof (induction n arbitrary: p w' tr)
  case 0
  then show ?case by auto
next
  case (Suc n)
  from cycleStart_Suc [OF Suc.prems] obtain p0 s0 where
    prev: "cycleStart c cfg re w n = Some (p0, s0)" and
    step: "pollCycle c cfg re p0 s0 = Some (Continue p, w', tr)" by blast
  obtain w0 tr0 where s0: "s0 = (w0, tr0)" by (cases s0)
  from Suc.IH [OF prev [unfolded s0]] have out0: "stdout tr0 = []" by simp
  from pollCycle_Continue [OF step] obtain ids w1 tr1 out where
    lst: "listImagesLoop c re (firstListImagesInput cfg) [] s0 = Some (Inr ids, w1, tr1)" and
    p: "p = fst (newestImage (ImageDetails out) (zeroTime, []))" and
    tr: "tr = tr1 @ [DescribeImagesCall (describeInput cfg ids) (Inr out),
                        Log (MostRecentPushedAt p),
                        Log (SleepingFor (Interval cfg)), Sleep (Interval cfg)]"
    by blast
  from listImagesLoop_trace [OF lst] obtain mid where "tr1 = tr0 @ mid" "stdout mid = []"
    using s0 by auto
  then have "stdout tr = []" using out0 tr by (simp add: stdout_append)
  moreover have "zeroTime \<le> p" unfolding p by (rule newestImage_zero_le)
  ultimately show ?case by simp
qed

lemma pollCycle_describes_after_listing:
  assumes lst: "listImagesLoop c re (firstListImagesInput cfg) [] s = Some (Inr ids, w1, tr1)"
  shows "\<exists>r w2 rest. pollCycle c cfg re p s =
           Some (r, w2, tr1 @ DescribeImagesCall (describeInput cfg ids)
                               (fst (DescribeImages c (describeInput cfg ids) w1)) # rest)"
proof -
  obtain d w2 where d: "DescribeImages c (describeInput cfg ids) w1 = (d, w2)"
    by (cases "DescribeImages c (describeInput cfg ids) w1")
  show ?thesis
  proof (cases d)
    case (Inl err)
    then show ?thesis using d by (simp add: pollCycle_describe_error [OF lst d [unfolded Inl]])
  next
    case (Inr out)
    then show ?thesis using d by (simp add: pollCycle_observed [OF lst d [unfolded Inr]])
  qed
qed

lemma newestImage_skip_unset:
  assumes "TimeValue (ImagePushedAt d) = zeroTime"
  shows "newestImage (xs @ d # ys) (zeroTime, []) = newestImage (xs @ ys) (zeroTime, [])"
proof -
  obtain t1 tg1 where pre: "newestImage xs (zeroTime, []) = (t1, tg1)"
    by (cases "newestImage xs (zeroTime, [])")
  have "zeroTime \<le> fst (newestImage xs (zeroTime, []))" by (rule newestImage_fst_ge)
  then have "\<not> After (TimeValue (ImagePushedAt d)) t1"
    using pre assms by (simp add: After_def)
  then show ?thesis by (simp add: newestImage_append pre)
qed



subsection \<open>Evaluating concrete runs\<close>

text \<open>The equations that unfold a run of the scripted registry.\<close>

lemmas run_defs =
  scriptedClient_def testConfig_def matchLatest_def taggedImage_def listedPage_def
  pushedImage_def describedAs_def firstListImagesInput_def describeInput_def pollCycle_def
  StringValue_def TimeValue_def StringValueSlice_def zeroTime_def IsZero_def After_def
  main_def Let_def listImagesLoop.simps watch.simps

section \<open>The claims\<close>

subsection \<open>Claim C1\<close>

text \<open>
  Claim C1, as the code has it. In a poll cycle whose listing and describing succeed, the
  process ends with success exactly when the stored timestamp is not the zero time and
  the newest timestamp of the cycle is strictly later than it; this never happens in the
  first cycle. Otherwise the cycle stores its newest timestamp and the next cycle starts.
  So when the stored timestamp is zero, as after a first poll whose describe answer had
  no detail with a push time after the zero time, a non-zero observation does not end
  the process.
\<close>

theorem success_exit_iff_nonzero_prior_and_later:
  assumes start: "cycleStart c cfg re w n = Some (p, s)"
    and lst: "listImagesLoop c re (firstListImagesInput cfg) [] s = Some (Inr ids, w1, tr1)"
    and dsc: "DescribeImages c (describeInput cfg ids) w1 = (Inr out, w2)"
    and new: "newestImage (ImageDetails out) (zeroTime, []) = (cur, tags)"
  shows "if \<not> IsZero p \<and> After cur p
         then main c cfg re w =
                Some (0, w2, tr1 @ [DescribeImagesCall (describeInput cfg ids) (Inr out),
                                    Log Exiting, Print (Join tags '','')])
              \<and> cycleStart c cfg re w (Suc n) = None \<and> 0 < n
         else cycleStart c cfg re w (Suc n) =
                Some (cur, w2, tr1 @ [DescribeImagesCall (describeInput cfg ids) (Inr out),
                                      Log (MostRecentPushedAt cur),
                                      Log (SleepingFor (Interval cfg)), Sleep (Interval cfg)])"
proof (cases "\<not> IsZero p \<and> After cur p")
  case True
  have step: "pollCycle c cfg re p s =
      Some (Exit 0, w2, tr1 @ [DescribeImagesCall (describeInput cfg ids) (Inr out),
                               Log Exiting, Print (Join tags '','')])"
    using True by (simp add: pollCycle_observed [OF lst dsc] new)
  have "main c cfg re w = watch c cfg re p s" by (rule cycleStart_main [OF start])
  also have "\<dots> = Some (0, w2, tr1 @ [DescribeImagesCall (describeInput cfg ids) (Inr out),
                               Log Exiting, Print (Join tags '','')])"
    by (rule watch_exit [OF step])
  finally have m: "main c cfg re w = Some (0, w2, tr1 @ [DescribeImagesCall (describeInput cfg ids) (Inr out),
                               Log Exiting, Print (Join tags '','')])" .
  have nxt: "cycleStart c cfg re w (Suc n) = None" using start step by simp
  have "0 < n"
  proof (rule ccontr)
    assume "\<not> 0 < n"
    then have "n = 0" by simp
    with start have "p = zeroTime" by simp
    with True show False by (simp add: IsZero_def zeroTime_def)
  qed
  with m nxt True show ?thesis by simp
next
  case False
  have step: "pollCycle c cfg re p s =
      Some (Continue cur, w2, tr1 @ [DescribeImagesCall (describeInput cfg ids) (Inr out),
                                      Log (MostRecentPushedAt cur),
                                      Log (SleepingFor (Interval cfg)), Sleep (Interval cfg)])"
    using False by (simp add: pollCycle_observed [OF lst dsc] new)
  then show ?thesis using start False by simp
qed

text \<open>The third cycle of \<open>zeroThenNew\<close>: 150 is stored, 200 is observed, the run ends with status 0.\<close>

theorem success_exit_iff_nonzero_prior_and_later_witness:
  "map_option fst (main scriptedClient testConfig matchLatest zeroThenNew) = Some 0
   \<and> cycleStart scriptedClient testConfig matchLatest zeroThenNew 3 = None"
proof -
  define s where "s = snd (the (cycleStart scriptedClient testConfig matchLatest zeroThenNew 2))"
  define r where "r = the (listImagesLoop scriptedClient matchLatest (firstListImagesInput testConfig) [] s)"
  define ids where "ids = projr (fst r)"
  define w1 where "w1 = fst (snd r)"
  define tr1 where "tr1 = snd (snd r)"
  define d where "d = DescribeImages scriptedClient (describeInput testConfig ids) w1"
  define out where "out = projr (fst d)"
  define w2 where "w2 = snd d"
  have start: "cycleStart scriptedClient testConfig matchLatest zeroThenNew 2 = Some (150, s)"
    by (simp add: s_def zeroThenNew_def run_defs numeral_2_eq_2)
  have lst: "listImagesLoop scriptedClient matchLatest (firstListImagesInput testConfig) [] s
      = Some (Inr ids, w1, tr1)"
    by (simp add: ids_def w1_def tr1_def r_def s_def zeroThenNew_def run_defs numeral_2_eq_2)
  have dsc: "DescribeImages scriptedClient (describeInput testConfig ids) w1 = (Inr out, w2)"
    by (simp add: out_def w2_def d_def ids_def w1_def tr1_def r_def s_def zeroThenNew_def run_defs numeral_2_eq_2)
  have new: "newestImage (ImageDetails out) (zeroTime, []) = (200, [''latest'', ''v3''])"
    by (simp add: out_def w2_def d_def ids_def w1_def tr1_def r_def s_def zeroThenNew_def run_defs numeral_2_eq_2)
  have cond: "\<not> IsZero 150 \<and> After 200 150" by (simp add: IsZero_def After_def)
  from success_exit_iff_nonzero_prior_and_later [OF start lst dsc new] cond
  show ?thesis by (simp add: numeral_3_eq_3 numeral_2_eq_2)
qed

text \<open>
  As stated, claim C1 fails. With the script \<open>zeroThenNew\<close> the first poll is answered
  with no detail and stores the zero time; the second poll observes the push time 150, stores it
  and the process goes on; only the third poll, which observes 200, ends the process, and
  the output is the tags of that third image.
\<close>

theorem zero_first_poll_no_exit_after_second:
  "map_option fst (cycleStart scriptedClient testConfig matchLatest zeroThenNew 1) = Some zeroTime
   \<and> map_option fst (cycleStart scriptedClient testConfig matchLatest zeroThenNew 2) = Some 150
   \<and> map_option fst (main scriptedClient testConfig matchLatest zeroThenNew) = Some 0
   \<and> map_option (stdout \<circ> snd \<circ> snd) (main scriptedClient testConfig matchLatest zeroThenNew)
       = Some ''latest,v3''"
  by (simp add: zeroThenNew_def run_defs numeral_2_eq_2)

subsection \<open>Claim C2\<close>

text \<open>
  Claim C2, as the code has it. A cycle that does not end the process replaces the stored
  timestamp by the newest timestamp of that cycle. Once the stored timestamp is not the
  zero time, the value that replaces it is never later than it: it stays or moves back.
\<close>

theorem stored_timestamp_never_advances:
  assumes start: "cycleStart c cfg re w n = Some (p, s)"
    and nxt: "cycleStart c cfg re w (Suc n) = Some (p', s')"
    and nz: "\<not> IsZero p"
  shows "\<not> After p' p \<and>
         (\<exists>ids w1 tr1 out w2.
            listImagesLoop c re (firstListImagesInput cfg) [] s = Some (Inr ids, w1, tr1) \<and>
            DescribeImages c (describeInput cfg ids) w1 = (Inr out, w2) \<and>
            p' = fst (newestImage (ImageDetails out) (zeroTime, [])))"
proof -
  obtain w' tr' where s': "s' = (w', tr')" by (cases s')
  from nxt start have step: "pollCycle c cfg re p s = Some (Continue p', w', tr')"
    unfolding s' by (auto split: option.splits cycleResult.splits)
  from pollCycle_Continue [OF step] nz show ?thesis by blast
qed

text \<open>The second cycle of \<open>newerThenOlder\<close>: 100 is stored and 50 replaces it.\<close>

theorem stored_timestamp_never_advances_witness:
  "map_option fst (cycleStart scriptedClient testConfig matchLatest newerThenOlder 1) = Some 100
   \<and> map_option fst (cycleStart scriptedClient testConfig matchLatest newerThenOlder 2) = Some 50
   \<and> \<not> After 50 100"
proof -
  define s where "s = snd (the (cycleStart scriptedClient testConfig matchLatest newerThenOlder 1))"
  define s' where "s' = snd (the (cycleStart scriptedClient testConfig matchLatest newerThenOlder 2))"
  have start: "cycleStart scriptedClient testConfig matchLatest newerThenOlder 1 = Some (100, s)"
    by (simp add: s_def newerThenOlder_def run_defs)
  have nxt: "cycleStart scriptedClient testConfig matchLatest newerThenOlder (Suc 1) = Some (50, s')"
    by (simp add: s'_def newerThenOlder_def run_defs numeral_2_eq_2)
  have nz: "\<not> IsZero 100" by (simp add: IsZero_def)
  from stored_timestamp_never_advances [OF start nxt nz] start nxt
  show ?thesis by (simp add: numeral_2_eq_2)
qed

text \<open>
  As stated, claim C2 fails. With the script \<open>newerThenOlder\<close> the stored timestamp is
  100 after the first poll and 50 after the second.
\<close>

theorem stored_timestamp_rolls_back:
  "map_option fst (cycleStart scriptedClient testConfig matchLatest newerThenOlder 1) = Some 100
   \<and> map_option fst (cycleStart scriptedClient testConfig matchLatest newerThenOlder 2) = Some 50"
  by (simp add: newerThenOlder_def run_defs numeral_2_eq_2)

subsection \<open>Claim C3\<close>

text \<open>
  Claim C3, as the code has it. The page filter appends exactly the identifiers of the
  page whose tag the pattern matches, in order, where an absent tag counts as the empty
  string. An identifier with an empty or absent tag is kept exactly when the pattern
  matches the empty string.
\<close>

theorem matchPage_keeps_exactly_matches:
  "fst (matchPage tagRegexp ids (imageIDs, tr)) =
     imageIDs @ filter (\<lambda>imageID. tagRegexp (StringValue (ImageTag imageID))) ids
   \<and> (StringValue (ImageTag imageID) = [] \<longrightarrow>
        fst (matchPage tagRegexp [imageID] (imageIDs, tr)) =
          (if tagRegexp [] then imageIDs @ [imageID] else imageIDs))"
  by (simp add: matchPage_eq)

text \<open>The untagged identifier under \<^verbatim>\<open>.*\<close> and under \<^verbatim>\<open>^latest$\<close>, and a page of three.\<close>

theorem matchPage_keeps_exactly_matches_witness:
  "StringValue (ImageTag untagged) = []
   \<and> fst (matchPage matchAny [untagged] ([], [])) = [untagged]
   \<and> fst (matchPage matchLatest [untagged] ([], [])) = []
   \<and> fst (matchPage matchLatest [taggedImage ''latest'', taggedImage ''latest-2'', untagged] ([], []))
       = [taggedImage ''latest'']"
  using matchPage_keeps_exactly_matches [of matchAny "[untagged]" "[]" "[]" untagged]
    matchPage_keeps_exactly_matches [of matchLatest "[untagged]" "[]" "[]" untagged]
    matchPage_keeps_exactly_matches
      [of matchLatest "[taggedImage ''latest'', taggedImage ''latest-2'', untagged]" "[]" "[]" untagged]
  by (simp add: untagged_def matchAny_def matchLatest_def StringValue_def taggedImage_def)

text \<open>
  As stated, claim C3 fails. Under a pattern that matches the empty string, such as
  \<^verbatim>\<open>.*\<close>, an identifier with no tag is kept.
\<close>

theorem untagged_identifier_kept:
  "untagged \<in> set (fst (matchPage matchAny [untagged] ([], [])))
   \<and> StringValue (ImageTag untagged) = []"
  by (simp add: untagged_def matchAny_def StringValue_def)

subsection \<open>Claim C4\<close>

text \<open>
  Claim C4. Started from the zero time and no tags, the scan of the empty list gives the
  zero time and no tags, and so does the scan of a list in which no push time is after
  the zero time. Otherwise it gives the push time and the tags of the first detail that
  has the latest push time. At each step a detail whose push time equals the candidate's
  leaves the candidate as it is, and a strictly later one replaces both the time and the
  tags.
\<close>

theorem newestImage_strictly_latest:
  "newestImage [] (zeroTime, []) = (zeroTime, [])
   \<and> ((\<forall>d\<in>set ds0. \<not> After (TimeValue (ImagePushedAt d)) zeroTime) \<longrightarrow>
        newestImage ds0 (zeroTime, []) = (zeroTime, []))
   \<and> (i < length ds \<and> After (TimeValue (ImagePushedAt (ds ! i))) zeroTime
        \<and> (\<forall>j<length ds. \<not> After (TimeValue (ImagePushedAt (ds ! j)))
                               (TimeValue (ImagePushedAt (ds ! i))))
        \<and> (\<forall>j<i. After (TimeValue (ImagePushedAt (ds ! i)))
                        (TimeValue (ImagePushedAt (ds ! j)))) \<longrightarrow>
        newestImage ds (zeroTime, []) =
          (TimeValue (ImagePushedAt (ds ! i)), StringValueSlice (ImageTags (ds ! i))))
   \<and> (TimeValue (ImagePushedAt d) = t \<longrightarrow>
        newestImage (d # rest) (t, tags) = newestImage rest (t, tags))
   \<and> (After (TimeValue (ImagePushedAt d')) t' \<longrightarrow>
        newestImage (d' # rest') (t', tags') =
          newestImage rest' (TimeValue (ImagePushedAt d'), StringValueSlice (ImageTags d')))"
proof (intro conjI impI)
  show "newestImage [] (zeroTime, []) = (zeroTime, [])" by simp
next
  assume "\<forall>d\<in>set ds0. \<not> After (TimeValue (ImagePushedAt d)) zeroTime"
  then show "newestImage ds0 (zeroTime, []) = (zeroTime, [])" by (rule newestImage_unchanged)
next
  assume "i < length ds \<and> After (TimeValue (ImagePushedAt (ds ! i))) zeroTime
        \<and> (\<forall>j<length ds. \<not> After (TimeValue (ImagePushedAt (ds ! j)))
                               (TimeValue (ImagePushedAt (ds ! i))))
        \<and> (\<forall>j<i. After (TimeValue (ImagePushedAt (ds ! i)))
                        (TimeValue (ImagePushedAt (ds ! j))))"
  then show "newestImage ds (zeroTime, []) =
          (TimeValue (ImagePushedAt (ds ! i)), StringValueSlice (ImageTags (ds ! i)))"
    by (intro newestImage_first_max) simp_all
next
  assume "TimeValue (ImagePushedAt d) = t"
  then show "newestImage (d # rest) (t, tags) = newestImage rest (t, tags)"
    by (simp add: After_def)
next
  assume "After (TimeValue (ImagePushedAt d')) t'"
  then show "newestImage (d' # rest') (t', tags') =
          newestImage rest' (TimeValue (ImagePushedAt d'), StringValueSlice (ImageTags d'))"
    by simp
qed

text \<open>A tie for the latest push time, a list with no push time, and the two steps.\<close>

theorem newestImage_strictly_latest_witness:
  "newestImage [pushedImage 100 [''a''], pushedImage 150 [''b'', ''c''], pushedImage 150 [''x'']]
       (zeroTime, []) = (150, [''b'', ''c''])
   \<and> newestImage [\<lparr>ImagePushedAt = None, ImageTags = [Some ''a'']\<rparr>] (zeroTime, []) = (zeroTime, [])
   \<and> newestImage [pushedImage 150 [''x'']] (150, [''b'', ''c'']) = (150, [''b'', ''c''])
   \<and> newestImage [pushedImage 150 [''x'']] (100, [''a'']) = (150, [''x''])"
proof -
  let ?ds = "[pushedImage 100 [''a''], pushedImage 150 [''b'', ''c''], pushedImage 150 [''x'']]"
  let ?u = "[\<lparr>ImagePushedAt = None, ImageTags = [Some ''a'']\<rparr>]"
  have h1: "Suc 0 < length ?ds \<and> After (TimeValue (ImagePushedAt (?ds ! Suc 0))) zeroTime
        \<and> (\<forall>j<length ?ds. \<not> After (TimeValue (ImagePushedAt (?ds ! j)))
                               (TimeValue (ImagePushedAt (?ds ! Suc 0))))
        \<and> (\<forall>j<Suc 0. After (TimeValue (ImagePushedAt (?ds ! Suc 0)))
                        (TimeValue (ImagePushedAt (?ds ! j))))"
    by (simp add: pushedImage_def TimeValue_def After_def zeroTime_def less_Suc_eq all_conj_distrib)
  have h2: "\<forall>d\<in>set ?u. \<not> After (TimeValue (ImagePushedAt d)) zeroTime"
    by (simp add: TimeValue_def After_def)
  have h3: "TimeValue (ImagePushedAt (pushedImage 150 [''x''])) = 150"
    by (simp add: pushedImage_def TimeValue_def)
  have h4: "After (TimeValue (ImagePushedAt (pushedImage 150 [''x'']))) 100"
    by (simp add: pushedImage_def TimeValue_def After_def)
  from newestImage_strictly_latest [where ?ds0.0 = ?u and i = "Suc 0" and ds = ?ds
        and d = "pushedImage 150 [''x'']" and t = 150 and rest = "[]" and tags = "[''b'', ''c'']"
        and d' = "pushedImage 150 [''x'']" and t' = 100 and rest' = "[]" and tags' = "[''a'']"]
    h1 h2 h3 h4
  show ?thesis
    by (simp add: pushedImage_def TimeValue_def StringValueSlice_def StringValue_def After_def)
qed

subsection \<open>Claim C5\<close>

text \<open>
  Claim C5. When the service answers the successive list calls of a cycle with the pages
  of a non-empty list, all but the last carrying a continuation token and the last
  carrying none, the pagination loop returns the matching identifiers of all pages, each
  page's once and in order, after one list call per page and no describe call; the cycle
  then makes its describe call with exactly these identifiers.
\<close>

theorem pagination_accumulates_all_pages:
  assumes ne: "pages \<noteq> []"
    and more: "\<forall>page\<in>set (butlast pages). ListImagesOutput.NextToken page \<noteq> None"
    and fin: "ListImagesOutput.NextToken (last pages) = None"
    and srv: "servesPages ecrClient (firstListImagesInput cfg) w pages w'"
    and all: "imageIDs = concat (map (\<lambda>page. filter (\<lambda>imageID. tagRegexp (StringValue (ImageTag imageID)))
                                   (ListImagesOutput.ImageIds page)) pages)"
  shows "listImagesLoop ecrClient tagRegexp (firstListImagesInput cfg) [] (w, tr) =
           Some (Inr imageIDs, w', tr @ pagesTrace tagRegexp (firstListImagesInput cfg) pages)
         \<and> length (filter isListImagesCall (pagesTrace tagRegexp (firstListImagesInput cfg) pages))
             = length pages
         \<and> filter isDescribeImagesCall (pagesTrace tagRegexp (firstListImagesInput cfg) pages) = []
         \<and> (\<exists>r w2 rest.
              pollCycle ecrClient cfg tagRegexp mostRecentImagePushedAt (w, tr) =
                Some (r, w2, tr @ pagesTrace tagRegexp (firstListImagesInput cfg) pages
                         @ DescribeImagesCall (describeInput cfg imageIDs)
                             (fst (DescribeImages ecrClient (describeInput cfg imageIDs) w')) # rest))"
proof -
  have ids: "imageIDs = [] @ concat (map (\<lambda>page. matching tagRegexp (ListImagesOutput.ImageIds page)) pages)"
    unfolding all matching_def by simp
  have lst: "listImagesLoop ecrClient tagRegexp (firstListImagesInput cfg) [] (w, tr) =
           Some (Inr imageIDs, w', tr @ pagesTrace tagRegexp (firstListImagesInput cfg) pages)"
    unfolding ids by (rule listImagesLoop_pages [OF ne more fin srv])
  have nd: "filter isDescribeImagesCall (pagesTrace tagRegexp (firstListImagesInput cfg) pages) = []"
    by (simp add: filter_empty_conv pagesTrace_no_describe)
  from pollCycle_describes_after_listing [OF lst, of mostRecentImagePushedAt]
  show ?thesis using lst nd by (simp add: pagesTrace_calls)
qed

text \<open>Two pages, the first with a continuation token.\<close>

theorem pagination_accumulates_all_pages_witness:
  "listImagesLoop scriptedClient matchLatest (firstListImagesInput testConfig) []
     (([Inr (listedPage [taggedImage ''latest'', taggedImage ''v1''] (Some ''t1'')),
        Inr (listedPage [taggedImage ''v2'', taggedImage ''latest''] None)], []), [])
   = Some (Inr [taggedImage ''latest'', taggedImage ''latest''], ([], []),
       [ListImagesCall (firstListImagesInput testConfig)
          (Inr (listedPage [taggedImage ''latest'', taggedImage ''v1''] (Some ''t1''))),
        Log (MatchedTag ''latest''),
        ListImagesCall ((firstListImagesInput testConfig)\<lparr>ListImagesInput.NextToken := Some ''t1''\<rparr>)
          (Inr (listedPage [taggedImage ''v2'', taggedImage ''latest''] None)),
        Log (MatchedTag ''latest'')])"
proof -
  let ?p1 = "listedPage [taggedImage ''latest'', taggedImage ''v1''] (Some ''t1'')"
  let ?p2 = "listedPage [taggedImage ''v2'', taggedImage ''latest''] None"
  let ?pages = "[?p1, ?p2]"
  have ne: "?pages \<noteq> []" by simp
  have more: "\<forall>page\<in>set (butlast ?pages). ListImagesOutput.NextToken page \<noteq> None"
    by (simp add: listedPage_def)
  have fin: "ListImagesOutput.NextToken (last ?pages) = None"
    by (simp add: listedPage_def)
  have srv: "servesPages scriptedClient (firstListImagesInput testConfig)
               ([Inr ?p1, Inr ?p2], []) ?pages ([], [])"
    by (simp add: scriptedClient_def)
  have all: "[taggedImage ''latest'', taggedImage ''latest''] =
      concat (map (\<lambda>page. filter (\<lambda>imageID. matchLatest (StringValue (ImageTag imageID)))
                                   (ListImagesOutput.ImageIds page)) ?pages)"
    by (simp add: listedPage_def taggedImage_def matchLatest_def StringValue_def)
  from pagination_accumulates_all_pages [OF ne more fin srv all, of "[]" zeroTime]
  have run: "listImagesLoop scriptedClient matchLatest (firstListImagesInput testConfig) []
      (([Inr ?p1, Inr ?p2], []), []) =
      Some (Inr [taggedImage ''latest'', taggedImage ''latest''], ([], []),
            [] @ pagesTrace matchLatest (firstListImagesInput testConfig) ?pages)"
    by blast
  have "pagesTrace matchLatest (firstListImagesInput testConfig) ?pages =
      [ListImagesCall (firstListImagesInput testConfig) (Inr ?p1),
       Log (MatchedTag ''latest''),
       ListImagesCall ((firstListImagesInput testConfig)\<lparr>ListImagesInput.NextToken := Some ''t1''\<rparr>)
         (Inr ?p2),
       Log (MatchedTag ''latest'')]"
    by (simp add: matching_def listedPage_def taggedImage_def matchLatest_def StringValue_def)
  with run show ?thesis by simp
qed

subsection \<open>Claim C6\<close>

text \<open>
  Claim C6. When a cycle of an execution detects a new image (the stored timestamp is not
  zero and the newest timestamp of the cycle is strictly later), the run ends with status
  0, its last event is the write of the comma-joined tags of that newest image, and the
  whole standard output of the run is that string and nothing else.
\<close>

theorem detection_prints_tags_and_exits_zero:
  assumes start: "cycleStart c cfg re w n = Some (p, s)"
    and lst: "listImagesLoop c re (firstListImagesInput cfg) [] s = Some (Inr ids, w1, tr1)"
    and dsc: "DescribeImages c (describeInput cfg ids) w1 = (Inr out, w2)"
    and new: "newestImage (ImageDetails out) (zeroTime, []) = (cur, tags)"
    and detected: "\<not> IsZero p \<and> After cur p"
  shows "main c cfg re w =
           Some (0, w2, tr1 @ [DescribeImagesCall (describeInput cfg ids) (Inr out),
                               Log Exiting, Print (Join tags '','')])
         \<and> stdout (tr1 @ [DescribeImagesCall (describeInput cfg ids) (Inr out),
                           Log Exiting, Print (Join tags '','')]) = Join tags '',''"
proof -
  obtain w0 tr0 where s: "s = (w0, tr0)" by (cases s)
  from cycleStart_inv [OF start [unfolded s]] have out0: "stdout tr0 = []" by simp
  from listImagesLoop_trace [OF lst] obtain mid where "tr1 = tr0 @ mid" "stdout mid = []"
    using s by auto
  then have quiet: "stdout tr1 = []" using out0 by (simp add: stdout_append)
  have step: "pollCycle c cfg re p s =
      Some (Exit 0, w2, tr1 @ [DescribeImagesCall (describeInput cfg ids) (Inr out),
                               Log Exiting, Print (Join tags '','')])"
    using detected by (simp add: pollCycle_observed [OF lst dsc] new)
  have "main c cfg re w = watch c cfg re p s" by (rule cycleStart_main [OF start])
  also have "\<dots> = Some (0, w2, tr1 @ [DescribeImagesCall (describeInput cfg ids) (Inr out),
                               Log Exiting, Print (Join tags '','')])"
    by (rule watch_exit [OF step])
  finally show ?thesis using quiet by (simp add: stdout_append)
qed

text \<open>The second cycle of \<open>newImagePushed\<close>: the output is the tags of the image pushed at 150.\<close>

theorem detection_prints_tags_and_exits_zero_witness:
  "map_option fst (main scriptedClient testConfig matchLatest newImagePushed) = Some 0
   \<and> map_option (stdout \<circ> snd \<circ> snd) (main scriptedClient testConfig matchLatest newImagePushed)
       = Some ''latest,v2''"
proof -
  define s where "s = snd (the (cycleStart scriptedClient testConfig matchLatest newImagePushed 1))"
  define r where "r = the (listImagesLoop scriptedClient matchLatest (firstListImagesInput testConfig) [] s)"
  define ids where "ids = projr (fst r)"
  define w1 where "w1 = fst (snd r)"
  define tr1 where "tr1 = snd (snd r)"
  define d where "d = DescribeImages scriptedClient (describeInput testConfig ids) w1"
  define out where "out = projr (fst d)"
  define w2 where "w2 = snd d"
  note defs = out_def w2_def d_def ids_def w1_def tr1_def r_def s_def newImagePushed_def run_defs
  have start: "cycleStart scriptedClient testConfig matchLatest newImagePushed 1 = Some (100, s)"
    by (simp add: defs)
  have lst: "listImagesLoop scriptedClient matchLatest (firstListImagesInput testConfig) [] s
      = Some (Inr ids, w1, tr1)"
    by (simp add: defs)
  have dsc: "DescribeImages scriptedClient (describeInput testConfig ids) w1 = (Inr out, w2)"
    by (simp add: defs)
  have new: "newestImage (ImageDetails out) (zeroTime, []) = (150, [''latest'', ''v2''])"
    by (simp add: defs)
  have detected: "\<not> IsZero 100 \<and> After 150 100" by (simp add: IsZero_def After_def)
  from detection_prints_tags_and_exits_zero [OF start lst dsc new detected]
  show ?thesis by simp
qed

subsection \<open>Claim C7\<close>

text \<open>
  Claim C7. A list call that returns an error ends the pagination loop with that error.
  When, in any cycle of an execution, the listing ends with an error or the describe call
  returns one, the run ends there with status 1: the failed call is the last call of the
  run, the only event after it is the log line of the error, and the standard output of
  the whole run is empty.
\<close>

theorem registry_error_is_fatal:
  assumes start: "cycleStart c cfg re w n = Some (p, s)"
  shows "(ListImages c inp w0 = (Inl err, w0') \<longrightarrow>
            listImagesLoop c re inp acc (w0, tr0) =
              Some (Inl err, w0', tr0 @ [ListImagesCall inp (Inl err)]))
       \<and> (listImagesLoop c re (firstListImagesInput cfg) [] s = Some (Inl err, w1, tr1) \<longrightarrow>
            main c cfg re w = Some (1, w1, tr1 @ [Log (Fatal err)])
            \<and> (\<exists>before inp'. tr1 = before @ [ListImagesCall inp' (Inl err)])
            \<and> stdout (tr1 @ [Log (Fatal err)]) = [])
       \<and> (listImagesLoop c re (firstListImagesInput cfg) [] s = Some (Inr ids, w1, tr1)
            \<and> DescribeImages c (describeInput cfg ids) w1 = (Inl err, w2) \<longrightarrow>
            main c cfg re w =
              Some (1, w2, tr1 @ [DescribeImagesCall (describeInput cfg ids) (Inl err),
                                  Log (Fatal err)])
            \<and> stdout (tr1 @ [DescribeImagesCall (describeInput cfg ids) (Inl err),
                              Log (Fatal err)]) = [])"
proof (intro conjI impI)
  assume "ListImages c inp w0 = (Inl err, w0')"
  then show "listImagesLoop c re inp acc (w0, tr0) =
              Some (Inl err, w0', tr0 @ [ListImagesCall inp (Inl err)])"
    by (rule listImagesLoop_error)
next
  assume lst: "listImagesLoop c re (firstListImagesInput cfg) [] s = Some (Inl err, w1, tr1)"
  have "main c cfg re w = watch c cfg re p s" by (rule cycleStart_main [OF start])
  also have "\<dots> = Some (1, w1, tr1 @ [Log (Fatal err)])"
    by (rule watch_exit [OF pollCycle_list_error [OF lst]])
  finally show "main c cfg re w = Some (1, w1, tr1 @ [Log (Fatal err)])" .
next
  assume lst: "listImagesLoop c re (firstListImagesInput cfg) [] s = Some (Inl err, w1, tr1)"
  from listImagesLoop_trace [OF lst] obtain mid mid' inp' where
    "tr1 = snd s @ mid" "mid = mid' @ [ListImagesCall inp' (Inl err)]" by auto
  then have "tr1 = (snd s @ mid') @ [ListImagesCall inp' (Inl err)]" by simp
  then show "\<exists>before inp'. tr1 = before @ [ListImagesCall inp' (Inl err)]" by blast
next
  assume lst: "listImagesLoop c re (firstListImagesInput cfg) [] s = Some (Inl err, w1, tr1)"
  obtain ws trs where s: "s = (ws, trs)" by (cases s)
  from cycleStart_inv [OF start [unfolded s]] have out0: "stdout trs = []" by simp
  from listImagesLoop_trace [OF lst] obtain mid where "tr1 = trs @ mid" "stdout mid = []"
    using s by auto
  then show "stdout (tr1 @ [Log (Fatal err)]) = []" using out0 by (simp add: stdout_append)
next
  assume a: "listImagesLoop c re (firstListImagesInput cfg) [] s = Some (Inr ids, w1, tr1)
            \<and> DescribeImages c (describeInput cfg ids) w1 = (Inl err, w2)"
  have "main c cfg re w = watch c cfg re p s" by (rule cycleStart_main [OF start])
  also have "\<dots> = Some (1, w2, tr1 @ [DescribeImagesCall (describeInput cfg ids) (Inl err),
                                  Log (Fatal err)])"
    by (rule watch_exit [OF pollCycle_describe_error [OF conjunct1 [OF a] conjunct2 [OF a]]])
  finally show "main c cfg re w =
              Some (1, w2, tr1 @ [DescribeImagesCall (describeInput cfg ids) (Inl err),
                                  Log (Fatal err)])" .
next
  assume a: "listImagesLoop c re (firstListImagesInput cfg) [] s = Some (Inr ids, w1, tr1)
            \<and> DescribeImages c (describeInput cfg ids) w1 = (Inl err, w2)"
  then have lst: "listImagesLoop c re (firstListImagesInput cfg) [] s = Some (Inr ids, w1, tr1)" by simp
  obtain ws trs where s: "s = (ws, trs)" by (cases s)
  from cycleStart_inv [OF start [unfolded s]] have out0: "stdout trs = []" by simp
  from listImagesLoop_trace [OF lst] obtain mid where "tr1 = trs @ mid" "stdout mid = []"
    using s by auto
  then show "stdout (tr1 @ [DescribeImagesCall (describeInput cfg ids) (Inl err),
                              Log (Fatal err)]) = []"
    using out0 by (simp add: stdout_append)
qed

text \<open>A describe call that fails in the first cycle, and a list call that fails in the third.\<close>

theorem registry_error_is_fatal_witness:
  "map_option fst (main scriptedClient testConfig matchLatest describeFails) = Some 1
   \<and> map_option (stdout \<circ> snd \<circ> snd) (main scriptedClient testConfig matchLatest describeFails)
       = Some []
   \<and> map_option fst (main scriptedClient testConfig matchLatest newerThenOlder) = Some 1
   \<and> map_option (stdout \<circ> snd \<circ> snd) (main scriptedClient testConfig matchLatest newerThenOlder)
       = Some []"
proof -
  define s where "s = (describeFails, [Log Running])"
  define r where "r = the (listImagesLoop scriptedClient matchLatest (firstListImagesInput testConfig) [] s)"
  define ids where "ids = projr (fst r)"
  define w1 where "w1 = fst (snd r)"
  define tr1 where "tr1 = snd (snd r)"
  note defs = ids_def w1_def tr1_def r_def s_def describeFails_def run_defs
  have start: "cycleStart scriptedClient testConfig matchLatest describeFails 0 = Some (zeroTime, s)"
    by (simp add: s_def)
  have lst: "listImagesLoop scriptedClient matchLatest (firstListImagesInput testConfig) [] s
      = Some (Inr ids, w1, tr1)
      \<and> DescribeImages scriptedClient (describeInput testConfig ids) w1
          = (Inl (Error ''AccessDenied''), ([], []))"
    by (simp add: defs)
  define s' where "s' = snd (the (cycleStart scriptedClient testConfig matchLatest newerThenOlder 2))"
  define r' where "r' = the (listImagesLoop scriptedClient matchLatest (firstListImagesInput testConfig) [] s')"
  define w1' where "w1' = fst (snd r')"
  define tr1' where "tr1' = snd (snd r')"
  note defs' = w1'_def tr1'_def r'_def s'_def newerThenOlder_def run_defs numeral_2_eq_2
  have start': "cycleStart scriptedClient testConfig matchLatest newerThenOlder 2 = Some (50, s')"
    by (simp add: defs')
  have call': "ListImages scriptedClient (firstListImagesInput testConfig) ([], [])
      = (Inl (Error ''script exhausted''), ([], []))"
    by (simp add: scriptedClient_def)
  have lst': "listImagesLoop scriptedClient matchLatest (firstListImagesInput testConfig) [] s'
      = Some (Inl (Error ''script exhausted''), w1', tr1')"
    by (simp add: defs')
  from registry_error_is_fatal [OF start, where ids = ids and ?w1.0 = w1 and ?tr1.0 = tr1
      and err = "Error ''AccessDenied''" and ?w2.0 = "([], [])"] lst
  have a: "main scriptedClient testConfig matchLatest describeFails =
              Some (1, ([], []), tr1 @ [DescribeImagesCall (describeInput testConfig ids)
                                          (Inl (Error ''AccessDenied'')),
                                  Log (Fatal (Error ''AccessDenied''))])
            \<and> stdout (tr1 @ [DescribeImagesCall (describeInput testConfig ids)
                                          (Inl (Error ''AccessDenied'')),
                                  Log (Fatal (Error ''AccessDenied''))]) = []"
    by blast
  from registry_error_is_fatal [OF start', where err = "Error ''script exhausted''"
      and ?w1.0 = w1' and ?tr1.0 = tr1' and inp = "firstListImagesInput testConfig"
      and ?w0.0 = "([], [])" and ?w0' = "([], [])"] lst' call'
  have b: "main scriptedClient testConfig matchLatest newerThenOlder =
             Some (1, w1', tr1' @ [Log (Fatal (Error ''script exhausted''))])
            \<and> stdout (tr1' @ [Log (Fatal (Error ''script exhausted''))]) = []"
    by blast
  from a b show ?thesis by simp
qed

subsection \<open>Claim C8\<close>




subsection \<open>Claim C9\<close>

text \<open>
  Claim C9. There is a detecting execution whose standard output is empty: with the script
  \<open>untaggedNewest\<close> the second poll finds a newer image that has no tags, and the run
  logs that it exits, writes the empty string and ends with status 0.
\<close>

theorem detection_with_no_tags_prints_nothing:
  "main scriptedClient testConfig matchLatest untaggedNewest =
     Some (0, ([], []),
       [Log Running,
        ListImagesCall (firstListImagesInput testConfig) (Inr (listedPage [taggedImage ''latest''] None)),
        Log (MatchedTag ''latest''),
        DescribeImagesCall (describeInput testConfig [taggedImage ''latest''])
          (describedAs [pushedImage 100 [''latest'']]),
        Log (MostRecentPushedAt 100),
        Log (SleepingFor (Interval testConfig)), Sleep (Interval testConfig),
        ListImagesCall (firstListImagesInput testConfig) (Inr (listedPage [taggedImage ''latest''] None)),
        Log (MatchedTag ''latest''),
        DescribeImagesCall (describeInput testConfig [taggedImage ''latest''])
          (describedAs [pushedImage 150 []]),
        Log Exiting, Print []])
   \<and> map_option (stdout \<circ> snd \<circ> snd) (main scriptedClient testConfig matchLatest untaggedNewest)
       = Some []"
  by (simp add: untaggedNewest_def run_defs)

subsection \<open>Claim C10\<close>

text \<open>
  Claim C10. In a scan from the zero time, a detail whose push time is the zero time or
  absent is never selected: leaving it out does not change the result. When every detail
  is such, the scan gives the zero time and no tags, and a cycle of an execution that
  describes only such details does not end the process: it stores the zero time and the
  next cycle starts.
\<close>

theorem unset_timestamps_never_selected:
  "(TimeValue (ImagePushedAt d) = zeroTime \<longrightarrow>
      newestImage (xs @ d # ys) (zeroTime, []) = newestImage (xs @ ys) (zeroTime, []))
   \<and> ((\<forall>d\<in>set ds. TimeValue (ImagePushedAt d) = zeroTime) \<longrightarrow>
        newestImage ds (zeroTime, []) = (zeroTime, []))
   \<and> (cycleStart c cfg re w n = Some (p, s)
        \<and> listImagesLoop c re (firstListImagesInput cfg) [] s = Some (Inr ids, w1, tr1)
        \<and> DescribeImages c (describeInput cfg ids) w1 = (Inr out, w2)
        \<and> (\<forall>d\<in>set (ImageDetails out). TimeValue (ImagePushedAt d) = zeroTime) \<longrightarrow>
        cycleStart c cfg re w (Suc n) =
          Some (zeroTime, w2, tr1 @ [DescribeImagesCall (describeInput cfg ids) (Inr out),
                                     Log (MostRecentPushedAt zeroTime),
                                     Log (SleepingFor (Interval cfg)), Sleep (Interval cfg)]))"
proof (intro conjI impI)
  assume "TimeValue (ImagePushedAt d) = zeroTime"
  then show "newestImage (xs @ d # ys) (zeroTime, []) = newestImage (xs @ ys) (zeroTime, [])"
    by (rule newestImage_skip_unset)
next
  assume "\<forall>d\<in>set ds. TimeValue (ImagePushedAt d) = zeroTime"
  then have "\<forall>d\<in>set ds. \<not> After (TimeValue (ImagePushedAt d)) zeroTime"
    by (simp add: After_def)
  then show "newestImage ds (zeroTime, []) = (zeroTime, [])" by (rule newestImage_unchanged)
next
  assume a: "cycleStart c cfg re w n = Some (p, s)
        \<and> listImagesLoop c re (firstListImagesInput cfg) [] s = Some (Inr ids, w1, tr1)
        \<and> DescribeImages c (describeInput cfg ids) w1 = (Inr out, w2)
        \<and> (\<forall>d\<in>set (ImageDetails out). TimeValue (ImagePushedAt d) = zeroTime)"
  then have start: "cycleStart c cfg re w n = Some (p, s)"
    and lst: "listImagesLoop c re (firstListImagesInput cfg) [] s = Some (Inr ids, w1, tr1)"
    and dsc: "DescribeImages c (describeInput cfg ids) w1 = (Inr out, w2)"
    and unset: "\<forall>d\<in>set (ImageDetails out). TimeValue (ImagePushedAt d) = zeroTime"
    by simp_all
  from unset have "\<forall>d\<in>set (ImageDetails out). \<not> After (TimeValue (ImagePushedAt d)) zeroTime"
    by (simp add: After_def)
  then have new: "newestImage (ImageDetails out) (zeroTime, []) = (zeroTime, [])"
    by (rule newestImage_unchanged)
  obtain ws trs where s: "s = (ws, trs)" by (cases s)
  from cycleStart_inv [OF start [unfolded s]] have "zeroTime \<le> p" by simp
  then have "\<not> After zeroTime p" by (simp add: After_def)
  then have "pollCycle c cfg re p s =
      Some (Continue zeroTime, w2, tr1 @ [DescribeImagesCall (describeInput cfg ids) (Inr out),
                                     Log (MostRecentPushedAt zeroTime),
                                     Log (SleepingFor (Interval cfg)), Sleep (Interval cfg)])"
    by (simp add: pollCycle_observed [OF lst dsc] new)
  then show "cycleStart c cfg re w (Suc n) =
          Some (zeroTime, w2, tr1 @ [DescribeImagesCall (describeInput cfg ids) (Inr out),
                                     Log (MostRecentPushedAt zeroTime),
                                     Log (SleepingFor (Interval cfg)), Sleep (Interval cfg)])"
    using start by simp
qed

text \<open>Scans with unset push times, and the second cycle of \<open>unsetAfterSet\<close>.\<close>

theorem unset_timestamps_never_selected_witness:
  "newestImage [pushedImage 100 [''a''], \<lparr>ImagePushedAt = None, ImageTags = [Some ''x'']\<rparr>]
       (zeroTime, []) = (100, [''a''])
   \<and> newestImage [\<lparr>ImagePushedAt = None, ImageTags = [Some ''x'']\<rparr>,
                   \<lparr>ImagePushedAt = Some 0, ImageTags = [Some ''y'']\<rparr>] (zeroTime, [])
       = (zeroTime, [])
   \<and> map_option fst (cycleStart scriptedClient testConfig matchLatest unsetAfterSet 1) = Some 100
   \<and> map_option fst (cycleStart scriptedClient testConfig matchLatest unsetAfterSet 2) = Some zeroTime"
proof -
  let ?u = "\<lparr>ImagePushedAt = None, ImageTags = [Some ''x'']\<rparr>"
  let ?z = "\<lparr>ImagePushedAt = Some 0, ImageTags = [Some ''y'']\<rparr>"
  define s where "s = snd (the (cycleStart scriptedClient testConfig matchLatest unsetAfterSet 1))"
  define r where "r = the (listImagesLoop scriptedClient matchLatest (firstListImagesInput testConfig) [] s)"
  define ids where "ids = projr (fst r)"
  define w1 where "w1 = fst (snd r)"
  define tr1 where "tr1 = snd (snd r)"
  define d where "d = DescribeImages scriptedClient (describeInput testConfig ids) w1"
  define out where "out = projr (fst d)"
  define w2 where "w2 = snd d"
  note defs = out_def w2_def d_def ids_def w1_def tr1_def r_def s_def unsetAfterSet_def run_defs
  have h1: "TimeValue (ImagePushedAt ?u) = zeroTime" by (simp add: TimeValue_def)
  have h2: "\<forall>d\<in>set [?u, ?z]. TimeValue (ImagePushedAt d) = zeroTime"
    by (simp add: TimeValue_def zeroTime_def)
  have h3: "cycleStart scriptedClient testConfig matchLatest unsetAfterSet 1 = Some (100, s)
        \<and> listImagesLoop scriptedClient matchLatest (firstListImagesInput testConfig) [] s
            = Some (Inr ids, w1, tr1)
        \<and> DescribeImages scriptedClient (describeInput testConfig ids) w1 = (Inr out, w2)
        \<and> (\<forall>d\<in>set (ImageDetails out). TimeValue (ImagePushedAt d) = zeroTime)"
    by (simp add: defs)
  from unset_timestamps_never_selected [where d = ?u and xs = "[pushedImage 100 [''a'']]"
      and ys = "[]" and ds = "[?u, ?z]" and c = scriptedClient and cfg = testConfig
      and re = matchLatest and w = unsetAfterSet and n = 1 and p = 100 and s = s and ids = ids
      and ?w1.0 = w1 and ?tr1.0 = tr1 and out = out and ?w2.0 = w2] h1 h2 h3
  have "newestImage ([pushedImage 100 [''a'']] @ [?u]) (zeroTime, [])
          = newestImage ([pushedImage 100 [''a'']] @ []) (zeroTime, [])"
    and "newestImage [?u, ?z] (zeroTime, []) = (zeroTime, [])"
    and "map_option fst (cycleStart scriptedClient testConfig matchLatest unsetAfterSet (Suc 1))
          = Some zeroTime"
    by simp_all
  moreover have "newestImage [pushedImage 100 [''a'']] (zeroTime, []) = (100, [''a''])"
    by (simp add: pushedImage_def TimeValue_def StringValueSlice_def StringValue_def After_def zeroTime_def)
  ultimately show ?thesis using h3 by (simp add: numeral_2_eq_2)
qed

end
